theory Spec2Isabelle
  imports Complex_Main "HOL-Library.AList"
begin

section \<open>Errors\<close>

text \<open>
  The exceptions of the TypeScript sources, as values. \<open>RangeError\<close> and \<open>Error\<close>
  carry their message; \<open>Thrown name\<close> is an exception of the runtime (raised by
  \<^verbatim>\<open>Deno.listen\<close>) whose \<^verbatim>\<open>name\<close> property is \<open>name\<close>.
\<close>

datatype error = RangeError string | Error string | Thrown string

section \<open>The port allocator (\<^verbatim>\<open>docker/libraries/port.ts\<close>)\<close>

definition MIN_PORT :: int where
  "MIN_PORT = 1024"

definition MAX_PORT :: int where
  "MAX_PORT = 65535"

subsection \<open>The bind-and-release probe\<close>

text \<open>
  \<^verbatim>\<open>Deno.listen(options)\<close> is the one call into the operating system. It either
  returns a listener (which \<open>checkPort\<close> closes at once) or throws an exception with a
  name. The allocator is modelled over an arbitrary such function \<open>listen\<close>: the state
  of the machine's port space during one call of the allocator. A probe releases what it
  binds and no other allocation runs during the call, so the answer for a host and a port
  is the same whenever it is asked.
\<close>

datatype listen_result = Listening | Throws string

record ListenOptions =
  hostname :: "string option"
  port :: int

record CheckedPort =
  valid :: bool
  port :: int

definition checkPort ::
  "(ListenOptions \<Rightarrow> listen_result) \<Rightarrow> ListenOptions \<Rightarrow> error + CheckedPort" where
  "checkPort listen options =
     (case listen options of
        Listening \<Rightarrow> Inr \<lparr>valid = True, port = ListenOptions.port options\<rparr>
      | Throws name \<Rightarrow>
          if name \<noteq> ''AddrInUse'' then Inl (Thrown name)
          else Inr \<lparr>valid = False, port = ListenOptions.port options\<rparr>)"

subsection \<open>\<^verbatim>\<open>makeRange\<close>\<close>

text \<open>
  The \<^verbatim>\<open>for\<close> loop of \<open>makeRange\<close>: \<open>p\<close> is the loop variable \<^verbatim>\<open>port\<close>,
  \<open>ports\<close> the array built so far, and \<^verbatim>\<open>push\<close> appends at the end.
\<close>

function range_loop :: "int \<Rightarrow> int \<Rightarrow> int list \<Rightarrow> int list" where
  "range_loop p to ports =
     (if p \<le> to then range_loop (p + 1) to (ports @ [p]) else ports)"
  by pat_completeness auto
termination
  by (relation "measure (\<lambda>(p, to, ports). nat (to + 1 - p))") auto

declare range_loop.simps [simp del]

text \<open>
  The three guards are written as the source has them, with \<open>\<or>\<close> between the two
  comparisons of each bound.
\<close>

definition makeRange :: "int \<Rightarrow> int \<Rightarrow> error + int list" where
  "makeRange from to =
     (if \<not> (from > MIN_PORT \<or> from < MAX_PORT) then
        Inl (RangeError ''`from` must be between 1024 and 65535'')
      else if \<not> (to > MIN_PORT \<or> to < MAX_PORT) then
        Inl (RangeError ''`to` must be between 1024 and 65536'')
      else if \<not> (to > from) then
        Inl (RangeError ''`to` must be greater than or equal to `from`'')
      else Inr (range_loop from to []))"

lemma range_loop_upto: "range_loop a b acc = acc @ [a..b]"
proof (induction a b acc rule: range_loop.induct)
  case (1 p to ports)
  show ?case
  proof (cases "p \<le> to")
    case True
    then show ?thesis
      using 1 by (subst range_loop.simps) (simp add: upto_rec1)
  next
    case False
    then show ?thesis
      by (subst range_loop.simps) simp
  qed
qed

text \<open>
  What \<open>makeRange\<close> computes: neither bound check can fire, since every integer is
  above 1024 or below 65535; only the order of the two bounds is checked.
\<close>

lemma makeRange_eq:
  "makeRange a b =
     (if a < b then Inr [a..b]
      else Inl (RangeError ''`to` must be greater than or equal to `from`''))"
  by (auto simp: makeRange_def MIN_PORT_def MAX_PORT_def range_loop_upto)

lemma makeRange_Inr: "makeRange a b = Inr ports \<Longrightarrow> a < b \<and> ports = [a..b]"
  by (simp add: makeRange_eq split: if_splits)

lemma makeRange_full_range:
  "makeRange (MIN_PORT + 1) (MAX_PORT - 1) = Inr [MIN_PORT + 1..MAX_PORT - 1]"
  unfolding makeRange_eq by (rule if_P) (simp add: MIN_PORT_def MAX_PORT_def)

subsection \<open>\<^verbatim>\<open>randomPort\<close>\<close>

text \<open>
  \<^verbatim>\<open>Math.random()\<close> is modelled by the list of the numbers it returns in this call and
  in the recursive calls that follow, each a number \<open>r\<close> with \<open>0 \<le> r < 1\<close>. The function
  has no bound on its retries; a list that runs out (\<open>None\<close>) stands for a call that has
  not returned after that many draws. The hostname is passed to the probe as it is given.
\<close>

fun randomPort ::
  "(ListenOptions \<Rightarrow> listen_result) \<Rightarrow> string option \<Rightarrow> real list \<Rightarrow> (error + int) option" where
  "randomPort listen host [] = None"
| "randomPort listen host (random # randoms) =
     (let p = \<lceil>random * of_int ((MAX_PORT - 1) - MIN_PORT + 1) + of_int MIN_PORT + 1\<rceil>;
          checked = checkPort listen \<lparr>hostname = host, port = p\<rparr>
      in case checked of
           Inl e \<Rightarrow> Some (Inl e)
         | Inr result \<Rightarrow>
             if valid result then Some (Inr (port result))
             else randomPort listen host randoms)"

subsection \<open>\<^verbatim>\<open>getPort\<close>\<close>

text \<open>
  The first parameter of \<open>getPort\<close> is \<^verbatim>\<open>port?: number | number[]\<close>: absent, a
  number, or an array of numbers; the numbers are integers here, as ports are. \<open>truthy\<close>
  is JavaScript's test \<^verbatim>\<open>port && ...\<close> (\<^verbatim>\<open>undefined\<close> and the number 0 are falsy,
  every array is truthy), \<open>isArray\<close> is \<^verbatim>\<open>Array.isArray\<close>.
\<close>

datatype port_arg = Undefined | Num int | Arr "int list"

fun truthy :: "port_arg \<Rightarrow> bool" where
  "truthy Undefined = False"
| "truthy (Num n) = (n \<noteq> 0)"
| "truthy (Arr ps) = True"

fun isArray :: "port_arg \<Rightarrow> bool" where
  "isArray (Arr ps) = True"
| "isArray _ = False"

fun number_of :: "port_arg \<Rightarrow> int" where
  "number_of (Num n) = n"
| "number_of _ = 0"

fun array_of :: "port_arg \<Rightarrow> int list" where
  "array_of (Arr ps) = ps"
| "array_of _ = []"

text \<open>
  \<^verbatim>\<open>ports[ports.length - 1]\<close>: the last element, and \<^verbatim>\<open>undefined\<close> when the array
  is empty.
\<close>

definition last_element :: "int list \<Rightarrow> port_arg" where
  "last_element ports =
     (if ports = [] then Undefined else Num (ports ! (length ports - 1)))"

text \<open>
  \<^verbatim>\<open>hostname || "0.0.0.0"\<close>: the default replaces an absent and an empty hostname.
\<close>

definition hostname_or :: "string option \<Rightarrow> string \<Rightarrow> string" where
  "hostname_or host dflt =
     (case host of None \<Rightarrow> dflt | Some h \<Rightarrow> if h = [] then dflt else h)"

text \<open>
  The \<^verbatim>\<open>for (const port of ports)\<close> loop of \<open>getPort\<close>: it probes the candidates
  in order with \<^verbatim>\<open>{ ...listenOptions, port }\<close>, returns the first valid one, lets an
  exception of \<open>checkPort\<close> escape, and falls through (\<open>Inr None\<close>) when no candidate
  is valid.
\<close>

fun probe_each ::
  "(ListenOptions \<Rightarrow> listen_result) \<Rightarrow> ListenOptions \<Rightarrow> int list \<Rightarrow> error + int option" where
  "probe_each listen listenOptions [] = Inr None"
| "probe_each listen listenOptions (p # ports) =
     (case checkPort listen (listenOptions\<lparr>ListenOptions.port := p\<rparr>) of
        Inl e \<Rightarrow> Inl e
      | Inr result \<Rightarrow>
          if valid result then Inr (Some (port result))
          else probe_each listen listenOptions ports)"

text \<open>
  \<open>getPort\<close> itself. Both recursive calls pass one argument only, so the recursion
  runs with the hostname absent.
\<close>

function getPort ::
  "(ListenOptions \<Rightarrow> listen_result) \<Rightarrow> port_arg \<Rightarrow> string option \<Rightarrow> error + int" where
  "getPort listen preferred host =
     (let listenOptions =
        \<lparr>hostname = Some (hostname_or host ''0.0.0.0''),
         port = (if truthy preferred \<and> \<not> isArray preferred then number_of preferred else 0)\<rparr>
      in
        if \<not> truthy preferred \<or> isArray preferred then
          (case (if isArray preferred then Inr (array_of preferred)
                 else makeRange (MIN_PORT + 1) (MAX_PORT - 1)) of
             Inl e \<Rightarrow> Inl e
           | Inr ports \<Rightarrow>
               (case probe_each listen listenOptions ports of
                  Inl e \<Rightarrow> Inl e
                | Inr (Some p) \<Rightarrow> Inr p
                | Inr None \<Rightarrow> getPort listen (last_element ports) None))
        else
          (case checkPort listen listenOptions of
             Inl e \<Rightarrow> Inl e
           | Inr result \<Rightarrow>
               if \<not> valid result then
                 (case makeRange (port result + 1) (MAX_PORT - 1) of
                    Inl e \<Rightarrow> Inl e
                  | Inr rng \<Rightarrow> getPort listen (Arr rng) None)
               else Inr (port result)))"
  by pat_completeness auto

text \<open>
  Termination. \<open>search_rank\<close> bounds the number of recursive calls still possible
  from an argument: a single port at or above 65533 makes none (\<open>makeRange\<close> fails), a
  list ending in 65534 makes one (to that single port), and so on; no call is more than
  three recursive calls away from its result.
\<close>

fun search_rank :: "port_arg \<Rightarrow> nat" where
  "search_rank Undefined = 1"
| "search_rank (Num n) = (if n = 0 then 1 else if n + 1 < MAX_PORT - 1 then 2 else 0)"
| "search_rank (Arr ps) =
     (if ps = [] then 2
      else if last ps = 0 then 2
      else if last ps + 1 < MAX_PORT - 1 then 3
      else 1)"

lemma last_element_upto: "a \<le> b \<Longrightarrow> last_element [a..b] = Num b"
  by (simp add: last_element_def nth_upto)

lemma last_element_nonempty: "ports \<noteq> [] \<Longrightarrow> last_element ports = Num (last ports)"
  by (simp add: last_element_def last_conv_nth)

lemma last_element_full_range:
  "last_element [MIN_PORT + 1..MAX_PORT - 1] = Num (MAX_PORT - 1)"
  by (rule last_element_upto) (simp add: MIN_PORT_def MAX_PORT_def)

lemma search_rank_last_element:
  "search_rank (last_element ports) < search_rank (Arr ports)"
  by (cases "ports = []") (simp_all add: last_element_nonempty, simp add: last_element_def)

termination getPort
proof (relation "measure (\<lambda>(listen, preferred, host). search_rank preferred)", goal_cases)
  case 1
  show ?case by simp
next
  case (2 listen preferred host listenOptions ports)
  show ?case
  proof (cases "isArray preferred")
    case True
    with 2 have "preferred = Arr ports"
      by (cases preferred) simp_all
    thus ?thesis using search_rank_last_element by simp
  next
    case False
    with 2 have "makeRange (MIN_PORT + 1) (MAX_PORT - 1) = Inr ports"
      by simp
    hence "ports = [MIN_PORT + 1..MAX_PORT - 1]"
      by (simp only: makeRange_full_range sum.inject)
    hence "search_rank (last_element ports) = 0"
      by (simp only: last_element_full_range) (simp add: MAX_PORT_def)
    moreover from 2 False have "search_rank preferred = 1"
      by (cases preferred) simp_all
    ultimately show ?thesis by simp
  qed
next
  case (3 listen preferred host listenOptions result rng)
  then obtain n where n: "preferred = Num n" "n \<noteq> 0"
    by (cases preferred) auto
  from 3 n have p: "port result = n"
    by (auto simp: checkPort_def split: listen_result.splits if_splits)
  from 3 p have "makeRange (n + 1) (MAX_PORT - 1) = Inr rng"
    by simp
  from makeRange_Inr [OF this]
  have lt: "n + 1 < MAX_PORT - 1" and r: "rng = [n + 1..MAX_PORT - 1]"
    by simp_all
  from lt have "last_element [n + 1..MAX_PORT - 1] = Num (MAX_PORT - 1)"
    by (intro last_element_upto) simp
  hence "search_rank (last_element rng) = 0"
    unfolding r by (simp add: MAX_PORT_def)
  moreover from lt have "rng \<noteq> []"
    unfolding r by simp
  ultimately have "search_rank (Arr rng) = 1"
    by (simp add: last_element_nonempty split: if_splits)
  thus ?case using n lt by simp
qed

declare getPort.simps [simp del]

subsection \<open>Vocabulary of the statements\<close>

text \<open>
  \<open>probe listen h p\<close> is what \<^verbatim>\<open>Deno.listen\<close> answers for host \<open>h\<close> and port
  \<open>p\<close>. A probe succeeds when it is \<open>Listening\<close> and fails (the port is bound) when
  it is \<open>Throws ''AddrInUse''\<close>; any other exception is passed on by \<open>checkPort\<close>.
\<close>

definition probe :: "(ListenOptions \<Rightarrow> listen_result) \<Rightarrow> string \<Rightarrow> int \<Rightarrow> listen_result" where
  "probe listen h p = listen \<lparr>hostname = Some h, port = p\<rparr>"

text \<open>
  The two exceptions \<open>getPort\<close> can end with: the \<open>RangeError\<close> of \<open>makeRange\<close>
  (the only one of its three that can be thrown), or an exception of the probe other than
  \<^verbatim>\<open>AddrInUse\<close>.
\<close>

definition search_error :: "error \<Rightarrow> bool" where
  "search_error e \<longleftrightarrow>
     e = RangeError ''`to` must be greater than or equal to `from`'' \<or>
     (\<exists>name. e = Thrown name \<and> name \<noteq> ''AddrInUse'')"

text \<open>A machine on which exactly port \<open>n\<close> can be bound, on every host.\<close>

definition only_free :: "int \<Rightarrow> ListenOptions \<Rightarrow> listen_result" where
  "only_free n options =
     (if ListenOptions.port options = n then Listening else Throws ''AddrInUse'')"


text \<open>A machine on which every port of host \<open>h\<close> is bound and every other host is free.\<close>

definition busy_on :: "string \<Rightarrow> ListenOptions \<Rightarrow> listen_result" where
  "busy_on h options =
     (if ListenOptions.hostname options = Some h then Throws ''AddrInUse'' else Listening)"

subsection \<open>Claim about \<open>makeRange\<close>\<close>

text \<open>
  Claim C1. The claim asks that \<open>makeRange\<close> fail with a \<open>RangeError\<close> whenever a
  bound lies outside the open interval from 1024 to 65535. The code does not: with both
  bounds below 1025, and with both bounds above 65534, it returns the ascending list.
\<close>

theorem makeRange_accepts_bounds_out_of_range:
  "makeRange 0 5 = Inr [0, 1, 2, 3, 4, 5] \<and>
   makeRange 65535 65537 = Inr [65535, 65536, 65537]"
  by (simp add: makeRange_eq upto_rec1)

subsection \<open>Claim about \<open>randomPort\<close>\<close>

text \<open>
  The candidates drawn from numbers in \<open>[0, 1)\<close> lie between 1025 and 65536, and a
  port that is returned passed its probe.
\<close>

lemma random_candidate_bounds:
  assumes "0 \<le> r" "r < 1"
  shows "MIN_PORT < \<lceil>r * of_int ((MAX_PORT - 1) - MIN_PORT + 1) + of_int MIN_PORT + 1\<rceil>"
    and "\<lceil>r * of_int ((MAX_PORT - 1) - MIN_PORT + 1) + of_int MIN_PORT + 1\<rceil> \<le> MAX_PORT + 1"
proof -
  show "MIN_PORT < \<lceil>r * of_int ((MAX_PORT - 1) - MIN_PORT + 1) + of_int MIN_PORT + 1\<rceil>"
    using assms by (simp add: MAX_PORT_def MIN_PORT_def less_ceiling_iff)
  show "\<lceil>r * of_int ((MAX_PORT - 1) - MIN_PORT + 1) + of_int MIN_PORT + 1\<rceil> \<le> MAX_PORT + 1"
    using assms by (simp add: MAX_PORT_def MIN_PORT_def ceiling_le_iff)
qed

lemma randomPort_returns_probed:
  "randomPort listen host randoms = Some (Inr p) \<Longrightarrow>
   listen \<lparr>hostname = host, port = p\<rparr> = Listening"
  by (induction randoms)
     (auto simp: checkPort_def Let_def split: listen_result.splits if_splits sum.splits)

lemma draw_65536:
  "\<lceil>(131071 / 131072 :: real) * of_int ((MAX_PORT - 1) - MIN_PORT + 1) + of_int MIN_PORT + 1\<rceil>
     = 65536"
  by (simp add: MAX_PORT_def MIN_PORT_def ceiling_eq_iff)

text \<open>
  Claim C6. The claim asks that every candidate drawn by \<open>randomPort\<close> lie in the range
  from 1024 to 65535. The code draws 65536 when \<^verbatim>\<open>Math.random()\<close> returns
  \<open>131071 / 131072\<close> (a double; the product and the two sums are multiples of
  \<open>1 / 131072\<close> below 131072, which doubles represent exactly, so the floating-point
  arithmetic of the source gives the same number): the port it probes, and returns if the
  probe succeeds, is 65536.
\<close>

theorem randomPort_draws_65536:
  "randomPort listen host (131071 / 131072 # randoms) =
     (case listen \<lparr>hostname = host, port = 65536\<rparr> of
        Listening \<Rightarrow> Some (Inr 65536)
      | Throws name \<Rightarrow>
          if name \<noteq> ''AddrInUse'' then Some (Inl (Thrown name))
          else randomPort listen host randoms)"
proof -
  have "randomPort listen host (131071 / 131072 # randoms) =
     (case checkPort listen \<lparr>hostname = host, port = 65536\<rparr> of
        Inl e \<Rightarrow> Some (Inl e)
      | Inr result \<Rightarrow>
          if valid result then Some (Inr (port result))
          else randomPort listen host randoms)"
    by (simp only: randomPort.simps Let_def draw_65536)
  thus ?thesis
    by (simp add: checkPort_def split: listen_result.splits)
qed

subsection \<open>The probe loop\<close>

lemma checkPort_probe:
  "checkPort listen \<lparr>hostname = Some h, port = p\<rparr> =
     (case probe listen h p of
        Listening \<Rightarrow> Inr \<lparr>valid = True, port = p\<rparr>
      | Throws name \<Rightarrow>
          if name \<noteq> ''AddrInUse'' then Inl (Thrown name)
          else Inr \<lparr>valid = False, port = p\<rparr>)"
  by (simp add: checkPort_def probe_def split: listen_result.splits)

lemma probe_each_Cons:
  "probe_each listen \<lparr>hostname = Some h, port = x\<rparr> (p # ps) =
     (case probe listen h p of
        Listening \<Rightarrow> Inr (Some p)
      | Throws name \<Rightarrow>
          if name \<noteq> ''AddrInUse'' then Inl (Thrown name)
          else probe_each listen \<lparr>hostname = Some h, port = x\<rparr> ps)"
  by (simp add: checkPort_probe split: listen_result.splits)

lemma probe_each_skip:
  "\<forall>q\<in>set qs. probe listen h q = Throws ''AddrInUse'' \<Longrightarrow>
   probe_each listen \<lparr>hostname = Some h, port = x\<rparr> (qs @ rest) =
   probe_each listen \<lparr>hostname = Some h, port = x\<rparr> rest"
  by (induction qs) (simp_all add: checkPort_probe)

lemma probe_each_Some:
  "probe_each listen \<lparr>hostname = Some h, port = x\<rparr> ps = Inr (Some p) \<Longrightarrow>
   p \<in> set ps \<and> probe listen h p = Listening"
  by (induction ps) (auto simp: checkPort_probe split: listen_result.splits if_splits)

lemma probe_each_Inl:
  "probe_each listen \<lparr>hostname = Some h, port = x\<rparr> ps = Inl e \<Longrightarrow>
   \<exists>name. e = Thrown name \<and> name \<noteq> ''AddrInUse''"
  by (induction ps) (auto simp: checkPort_probe split: listen_result.splits if_splits)

lemma probe_each_first:
  assumes "\<forall>q\<in>set qs. probe listen h q = Throws ''AddrInUse''"
    and "probe listen h p = Listening"
  shows "probe_each listen \<lparr>hostname = Some h, port = x\<rparr> (qs @ p # rest) = Inr (Some p)"
  using assms by (simp add: probe_each_skip probe_each_Cons del: probe_each.simps)


lemma probe_each_upto_first:
  assumes "a \<le> p" "p \<le> b" "probe listen h p = Listening"
    and "\<forall>q. a \<le> q \<and> q < p \<longrightarrow> probe listen h q = Throws ''AddrInUse''"
  shows "probe_each listen \<lparr>hostname = Some h, port = x\<rparr> [a..b] = Inr (Some p)"
proof -
  have "[a..b] = [a..p - 1] @ p # [p + 1..b]"
    using assms(1,2) by (rule upto_split3)
  moreover have "\<forall>q\<in>set [a..p - 1]. probe listen h q = Throws ''AddrInUse''"
    using assms(4) by simp
  ultimately show ?thesis
    using assms(3) by (simp only: probe_each_first)
qed

subsection \<open>The three ways into \<open>getPort\<close>\<close>

text \<open>
  \<open>getPort\<close> unfolded once for each shape of its argument: a list, no preference
  (\<^verbatim>\<open>undefined\<close> or 0), and a single nonzero port.
\<close>

lemma hostname_or_None [simp]: "hostname_or None d = d"
  by (simp add: hostname_or_def)

lemma getPort_Arr:
  "getPort listen (Arr ps) host =
     (case probe_each listen \<lparr>hostname = Some (hostname_or host ''0.0.0.0''), port = 0\<rparr> ps of
        Inl e \<Rightarrow> Inl e
      | Inr (Some p) \<Rightarrow> Inr p
      | Inr None \<Rightarrow> getPort listen (last_element ps) None)"
  by (subst getPort.simps) (simp split: sum.splits option.splits)

lemma getPort_falsy:
  "\<not> truthy preferred \<Longrightarrow>
   getPort listen preferred host =
     (case probe_each listen \<lparr>hostname = Some (hostname_or host ''0.0.0.0''), port = 0\<rparr>
             [MIN_PORT + 1..MAX_PORT - 1] of
        Inl e \<Rightarrow> Inl e
      | Inr (Some p) \<Rightarrow> Inr p
      | Inr None \<Rightarrow> getPort listen (Num (MAX_PORT - 1)) None)"
  by (subst getPort.simps, cases preferred)
     (simp_all add: makeRange_full_range last_element_full_range split: sum.splits option.splits)

lemma getPort_Num:
  "n \<noteq> 0 \<Longrightarrow>
   getPort listen (Num n) host =
     (case probe listen (hostname_or host ''0.0.0.0'') n of
        Listening \<Rightarrow> Inr n
      | Throws name \<Rightarrow>
          if name \<noteq> ''AddrInUse'' then Inl (Thrown name)
          else (case makeRange (n + 1) (MAX_PORT - 1) of
                  Inl e \<Rightarrow> Inl e
                | Inr rng \<Rightarrow> getPort listen (Arr rng) None))"
  by (subst getPort.simps) (simp add: checkPort_probe split: listen_result.splits)

lemma getPort_top:
  "getPort listen (Num (MAX_PORT - 1)) None =
     (case probe listen ''0.0.0.0'' (MAX_PORT - 1) of
        Listening \<Rightarrow> Inr (MAX_PORT - 1)
      | Throws name \<Rightarrow>
          if name \<noteq> ''AddrInUse'' then Inl (Thrown name)
          else Inl (RangeError ''`to` must be greater than or equal to `from`''))"
  by (subst getPort_Num) (simp_all add: MAX_PORT_def makeRange_eq hostname_or_def split: listen_result.splits)

lemma getPort_Num_in_use:
  assumes "n \<noteq> 0" "probe listen (hostname_or host ''0.0.0.0'') n = Throws ''AddrInUse''"
  shows "getPort listen (Num n) host =
           (if n + 1 < MAX_PORT - 1 then getPort listen (Arr [n + 1..MAX_PORT - 1]) None
            else Inl (RangeError ''`to` must be greater than or equal to `from`''))"
  using assms by (simp add: getPort_Num makeRange_eq)

lemma getPort_top_cases:
  "(getPort listen (Num (MAX_PORT - 1)) None = Inr (MAX_PORT - 1) \<and>
      probe listen ''0.0.0.0'' (MAX_PORT - 1) = Listening) \<or>
   (\<exists>e. getPort listen (Num (MAX_PORT - 1)) None = Inl e \<and> search_error e)"
  by (cases "probe listen ''0.0.0.0'' (MAX_PORT - 1)") (simp_all add: getPort_top search_error_def)

lemma getPort_upper_range:
  assumes "a \<le> MAX_PORT - 1"
  shows "(\<exists>p. getPort listen (Arr [a..MAX_PORT - 1]) None = Inr p \<and> a \<le> p \<and> p \<le> MAX_PORT - 1 \<and>
            probe listen ''0.0.0.0'' p = Listening) \<or>
         (\<exists>e. getPort listen (Arr [a..MAX_PORT - 1]) None = Inl e \<and> search_error e)"
proof (cases "probe_each listen \<lparr>hostname = Some ''0.0.0.0'', port = 0\<rparr> [a..MAX_PORT - 1]")
  case (Inl e)
  from probe_each_Inl [OF this] show ?thesis
    using Inl by (auto simp: getPort_Arr search_error_def)
next
  case (Inr found)
  show ?thesis
  proof (cases found)
    case None
    with Inr have "getPort listen (Arr [a..MAX_PORT - 1]) None = getPort listen (Num (MAX_PORT - 1)) None"
      using assms by (simp add: getPort_Arr last_element_upto)
    with getPort_top_cases [of listen] assms show ?thesis
      by auto
  next
    case (Some p)
    with Inr probe_each_Some [of listen "''0.0.0.0''" 0 "[a..MAX_PORT - 1]" p] show ?thesis
      by (auto simp: getPort_Arr)
  qed
qed

lemma getPort_Num_cases:
  assumes "n \<noteq> 0"
  shows "(\<exists>p. getPort listen (Num n) host = Inr p \<and>
            (probe listen (hostname_or host ''0.0.0.0'') p = Listening \<or>
             probe listen ''0.0.0.0'' p = Listening)) \<or>
         (\<exists>e. getPort listen (Num n) host = Inl e \<and> search_error e)"
proof (cases "probe listen (hostname_or host ''0.0.0.0'') n")
  case Listening
  thus ?thesis using assms by (simp add: getPort_Num)
next
  case (Throws name)
  show ?thesis
  proof (cases "name = ''AddrInUse''")
    case False
    with Throws show ?thesis
      using assms by (simp add: getPort_Num search_error_def)
  next
    case True
    show ?thesis
    proof (cases "n + 1 < MAX_PORT - 1")
      case False
      with Throws True show ?thesis
        using assms by (simp add: getPort_Num_in_use search_error_def)
    next
      case lt: True
      hence "getPort listen (Num n) host = getPort listen (Arr [n + 1..MAX_PORT - 1]) None"
        using Throws True assms by (simp add: getPort_Num_in_use)
      with getPort_upper_range [of "n + 1" listen] lt show ?thesis
        by auto
    qed
  qed
qed

lemma getPort_falsy_cases:
  assumes "\<not> truthy preferred"
  shows "(\<exists>p. getPort listen preferred host = Inr p \<and>
            (probe listen (hostname_or host ''0.0.0.0'') p = Listening \<or>
             probe listen ''0.0.0.0'' p = Listening)) \<or>
         (\<exists>e. getPort listen preferred host = Inl e \<and> search_error e)"
proof (cases "probe_each listen \<lparr>hostname = Some (hostname_or host ''0.0.0.0''), port = 0\<rparr>
                [MIN_PORT + 1..MAX_PORT - 1]")
  case (Inl e)
  from probe_each_Inl [OF this] show ?thesis
    using Inl assms by (auto simp: getPort_falsy search_error_def)
next
  case (Inr found)
  show ?thesis
  proof (cases found)
    case None
    with Inr have "getPort listen preferred host = getPort listen (Num (MAX_PORT - 1)) None"
      using assms by (simp add: getPort_falsy)
    with getPort_top_cases [of listen] show ?thesis
      by auto
  next
    case (Some p)
    with Inr probe_each_Some [of listen "hostname_or host ''0.0.0.0''" 0 _ p] show ?thesis
      using assms by (auto simp: getPort_falsy)
  qed
qed



subsection \<open>Claims about \<open>getPort\<close>\<close>

text \<open>
  Claim C2. Called with no port preference, \<open>getPort\<close> probes the candidates 1025,
  1026, ..., 65534 in ascending order on the requested host (\<^verbatim>\<open>0.0.0.0\<close> when none
  is given) and returns the first one whose probe succeeds: if \<open>p\<close> is in the range, its
  probe succeeds and every candidate below it is bound, the result is \<open>p\<close>. Conversely
  every port returned lies in the range and passed a probe: the probe of the loop, or, for
  65534 after the whole range was bound, the probe of the recursive call (made on the
  default host).
\<close>

theorem getPort_no_preference:
  "(MIN_PORT < p \<and> p < MAX_PORT \<and>
    probe listen (hostname_or host ''0.0.0.0'') p = Listening \<and>
    (\<forall>q. MIN_PORT < q \<and> q < p \<longrightarrow>
       probe listen (hostname_or host ''0.0.0.0'') q = Throws ''AddrInUse'')
    \<longrightarrow> getPort listen Undefined host = Inr p) \<and>
   (getPort listen Undefined host = Inr p
    \<longrightarrow> MIN_PORT < p \<and> p < MAX_PORT \<and>
        (probe listen (hostname_or host ''0.0.0.0'') p = Listening \<or>
         p = MAX_PORT - 1 \<and> probe listen ''0.0.0.0'' p = Listening))"
proof (intro conjI impI)
  assume a: "MIN_PORT < p \<and> p < MAX_PORT \<and>
    probe listen (hostname_or host ''0.0.0.0'') p = Listening \<and>
    (\<forall>q. MIN_PORT < q \<and> q < p \<longrightarrow>
       probe listen (hostname_or host ''0.0.0.0'') q = Throws ''AddrInUse'')"
  have "probe_each listen \<lparr>hostname = Some (hostname_or host ''0.0.0.0''), port = 0\<rparr>
          [MIN_PORT + 1..MAX_PORT - 1] = Inr (Some p)"
    using a by (intro probe_each_upto_first) auto
  thus "getPort listen Undefined host = Inr p"
    by (simp add: getPort_falsy)
next
  assume r: "getPort listen Undefined host = Inr p"
  let ?loop = "probe_each listen \<lparr>hostname = Some (hostname_or host ''0.0.0.0''), port = 0\<rparr>
          [MIN_PORT + 1..MAX_PORT - 1]"
  have "MIN_PORT < p \<and> p < MAX_PORT \<and>
        (probe listen (hostname_or host ''0.0.0.0'') p = Listening \<or>
         p = MAX_PORT - 1 \<and> probe listen ''0.0.0.0'' p = Listening)"
  proof (cases ?loop)
    case (Inl e)
    with r show ?thesis by (simp add: getPort_falsy)
  next
    case (Inr found)
    show ?thesis
    proof (cases found)
      case None
      with Inr r have "getPort listen (Num (MAX_PORT - 1)) None = Inr p"
        by (simp add: getPort_falsy)
      hence "p = MAX_PORT - 1 \<and> probe listen ''0.0.0.0'' p = Listening"
        by (auto simp: getPort_top split: listen_result.splits if_splits)
      thus ?thesis
        by (auto simp: MIN_PORT_def MAX_PORT_def)
    next
      case (Some p')
      with Inr r have "?loop = Inr (Some p)"
        by (simp add: getPort_falsy)
      from probe_each_Some [OF this] show ?thesis
        by auto
    qed
  qed
  thus "MIN_PORT < p" "p < MAX_PORT"
    "probe listen (hostname_or host ''0.0.0.0'') p = Listening \<or>
         p = MAX_PORT - 1 \<and> probe listen ''0.0.0.0'' p = Listening"
    by simp_all
qed

theorem getPort_no_preference_witness:
  "getPort (only_free 1027) Undefined None = Inr 1027 \<and>
   probe (only_free 1027) ''0.0.0.0'' 1027 = Listening \<and>
   probe (only_free 1027) ''0.0.0.0'' 1025 = Throws ''AddrInUse''"
  using getPort_no_preference [of 1027 "only_free 1027" None]
  by (simp add: only_free_def probe_def MIN_PORT_def MAX_PORT_def hostname_or_def)







text \<open>
  Remark on the hostname. Both recursive calls of \<open>getPort\<close> pass no hostname, while
  its loop and \<open>randomPort\<close> pass it on. Under a hostname other than the default the
  fallback therefore probes the default host: with every port of \<^verbatim>\<open>::1\<close> bound, a call
  for port 5000 on \<^verbatim>\<open>::1\<close> returns 5001, which is bound there. The two statements
  above describe the fallback for calls without a hostname only.
\<close>

lemma getPort_fallback_drops_hostname:
  "probe (busy_on ''::1'') ''::1'' 5001 = Throws ''AddrInUse'' \<and>
   getPort (busy_on ''::1'') (Num 5000) (Some ''::1'') = Inr 5001"
proof -
  have lt: "(5000::int) + 1 < MAX_PORT - 1"
    by (simp add: MAX_PORT_def)
  hence "[5000 + 1..MAX_PORT - 1] = 5001 # [5002..MAX_PORT - 1]"
    by (subst upto_rec1) simp_all
  with lt show ?thesis
    by (simp add: getPort_Num_in_use getPort_Arr checkPort_probe busy_on_def probe_def
          hostname_or_def)
qed

text \<open>
  Claim C10. \<open>getPort\<close> is a total function: its recursion is well-founded, by the
  termination proof above (\<open>search_rank\<close> decreases with every recursive call, so a call
  is at most three recursive calls deep). Every call therefore ends, and it ends in one of
  two ways: with a port whose probe succeeded (on the requested host, or on the default host
  when found by a recursive call), or with an exception, which is the \<open>RangeError\<close> of
  \<open>makeRange\<close> or an exception of the probe itself.
\<close>

theorem getPort_returns_port_or_error:
  "(\<exists>p. getPort listen preferred host = Inr p \<and>
      (probe listen (hostname_or host ''0.0.0.0'') p = Listening \<or>
       probe listen ''0.0.0.0'' p = Listening)) \<or>
   (\<exists>e. getPort listen preferred host = Inl e \<and> search_error e)"
proof (cases preferred)
  case Undefined
  thus ?thesis using getPort_falsy_cases [of preferred] by simp
next
  case (Num n)
  thus ?thesis
    using getPort_falsy_cases [of preferred] getPort_Num_cases [of n] by (cases "n = 0") simp_all
next
  case (Arr ps)
  show ?thesis
  proof (cases "probe_each listen \<lparr>hostname = Some (hostname_or host ''0.0.0.0''), port = 0\<rparr> ps")
    case (Inl e)
    from probe_each_Inl [OF this] show ?thesis
      using Inl Arr by (auto simp: getPort_Arr search_error_def)
  next
    case (Inr found)
    show ?thesis
    proof (cases found)
      case (Some p)
      with Inr probe_each_Some [of listen "hostname_or host ''0.0.0.0''" 0 ps p] show ?thesis
        using Arr by (auto simp: getPort_Arr)
    next
      case None
      with Inr Arr have eq: "getPort listen preferred host = getPort listen (last_element ps) None"
        by (simp add: getPort_Arr)
      show ?thesis
      proof (cases "truthy (last_element ps)")
        case False
        from getPort_falsy_cases [OF this, of listen None] eq show ?thesis
          by auto
      next
        case True
        then obtain n where "last_element ps = Num n" "n \<noteq> 0"
          by (cases "last_element ps") (auto simp: last_element_def split: if_splits)
        with getPort_Num_cases [of n listen None] eq show ?thesis
          by auto
      qed
    qed
  qed
qed

section \<open>The container handle (\<^verbatim>\<open>docker/libraries/container.ts\<close>, \<^verbatim>\<open>docker/libraries/docker.ts\<close>)\<close>

subsection \<open>The transport client\<close>

text \<open>
  The module \<^verbatim>\<open>modem.ts\<close> is not among the sources. Its four functions are parameters
  of the model: each takes the request it is given and the state \<open>'w\<close> of the engine, and
  returns the decoded response, or the exception it throws, with the engine's new state.
  A request is the object literal of the call site (its key \<^verbatim>\<open>method\<close> is the field
  \<open>method'\<close>); queries and bodies are JSON values.
\<close>

datatype json =
  JString string | JNumber int | JBool bool | JArray "json list" | JObject "(string \<times> json) list"

record request =
  method' :: "string option"
  path :: string
  query :: "(string \<times> json) list option"
  body :: "json option"

text \<open>
  A decoded response body, with the two properties the sources read from one
  (\<^verbatim>\<open>Id\<close> and \<^verbatim>\<open>Warnings\<close>).
\<close>

record Body =
  Id :: string
  Warnings :: "string list"

text \<open>
  The response of a streamed request carries the stream of its chunks. A stream is lazy
  and need not end (the log of a running container, followed, goes on as long as the
  container writes): it is a finite or infinite sequence.
\<close>

codatatype 'a llist = LNil | LCons 'a "'a llist"

record Response =
  stream :: "string llist"

record 'w Modem =
  post :: "request \<Rightarrow> 'w \<Rightarrow> (error + Body) \<times> 'w"
  del :: "request \<Rightarrow> 'w \<Rightarrow> (error + Body) \<times> 'w"
  get :: "request \<Rightarrow> 'w \<Rightarrow> (error + Body) \<times> 'w"
  request :: "request \<Rightarrow> 'w \<Rightarrow> (error + Response) \<times> 'w"

subsection \<open>The class \<^verbatim>\<open>Container\<close>\<close>

text \<open>
  The two \<^verbatim>\<open>readonly\<close> fields of the class. The field \<^verbatim>\<open>id\<close> is named \<open>id'\<close>
  here, \<open>id\<close> being the identity function of HOL.
\<close>

record Container =
  id' :: string
  warnings :: "string list"

text \<open>A parameter with the default \<^verbatim>\<open>= {}\<close>: the empty object replaces an absent argument.\<close>

definition or_empty :: "(string \<times> json) list option \<Rightarrow> (string \<times> json) list" where
  "or_empty q = (case q of None \<Rightarrow> [] | Some object \<Rightarrow> object)"

text \<open>
  \<^verbatim>\<open>Docker.createContainer\<close> builds the handle from the \<^verbatim>\<open>Id\<close> and the
  \<^verbatim>\<open>Warnings\<close> of the engine's response.
\<close>

definition createContainer ::
  "'w Modem \<Rightarrow> json \<Rightarrow> (string \<times> json) list option \<Rightarrow> 'w \<Rightarrow> (error + Container) \<times> 'w" where
  "createContainer modem config q w =
     (case post modem \<lparr>method' = None, path = ''/containers/create'',
                        query = Some (or_empty q), body = Some config\<rparr> w of
        (Inl e, w') \<Rightarrow> (Inl e, w')
      | (Inr r, w') \<Rightarrow> (Inr \<lparr>id' = Id r, warnings = Warnings r\<rparr>, w'))"

text \<open>
  The methods of the handle. Each is a function of the handle \<open>this\<close> and the state of the
  engine, and returns its result together with the handle and the engine's state after the
  call.
\<close>

definition start ::
  "'w Modem \<Rightarrow> Container \<Rightarrow> (string \<times> json) list option \<Rightarrow> 'w \<Rightarrow> (error + unit) \<times> Container \<times> 'w" where
  "start modem this q w =
     (case post modem \<lparr>method' = None, path = ''/containers/'' @ id' this @ ''/start'',
                        query = Some (or_empty q), body = None\<rparr> w of
        (Inl e, w') \<Rightarrow> (Inl e, this, w')
      | (Inr r, w') \<Rightarrow> (Inr (), this, w'))"

definition stop ::
  "'w Modem \<Rightarrow> Container \<Rightarrow> (string \<times> json) list option \<Rightarrow> 'w \<Rightarrow> (error + unit) \<times> Container \<times> 'w" where
  "stop modem this q w =
     (case post modem \<lparr>method' = None, path = ''/containers/'' @ id' this @ ''/stop'',
                        query = Some (or_empty q), body = None\<rparr> w of
        (Inl e, w') \<Rightarrow> (Inl e, this, w')
      | (Inr r, w') \<Rightarrow> (Inr (), this, w'))"

definition remove ::
  "'w Modem \<Rightarrow> Container \<Rightarrow> (string \<times> json) list option \<Rightarrow> 'w \<Rightarrow> (error + unit) \<times> Container \<times> 'w" where
  "remove modem this q w =
     (case del modem \<lparr>method' = None, path = ''/containers/'' @ id' this,
                       query = Some (or_empty q), body = None\<rparr> w of
        (Inl e, w') \<Rightarrow> (Inl e, this, w')
      | (Inr r, w') \<Rightarrow> (Inr (), this, w'))"

definition inspect ::
  "'w Modem \<Rightarrow> Container \<Rightarrow> 'w \<Rightarrow> (error + Body) \<times> Container \<times> 'w" where
  "inspect modem this w =
     (case get modem \<lparr>method' = None, path = ''/containers/'' @ id' this @ ''/json'',
                       query = None, body = None\<rparr> w of
        (r, w') \<Rightarrow> (r, this, w'))"

text \<open>
  The \<^verbatim>\<open>for await\<close> loop of \<^verbatim>\<open>logs\<close>. The handler is a closure: it is called with
  the chunk, may change its own state \<open>'s\<close>, and returns \<^verbatim>\<open>true\<close> (\<open>True\<close>) or nothing
  (\<open>False\<close>). The loop ends when the stream ends or the handler returns \<^verbatim>\<open>true\<close>, and
  then returns the chunks it has not consumed and the state the handler is left in; on a
  stream without end it may run forever, which is the value \<open>None\<close>.
\<close>

partial_function (option) consume ::
  "(string \<Rightarrow> 's \<Rightarrow> bool \<times> 's) \<Rightarrow> string llist \<Rightarrow> 's \<Rightarrow> (string llist \<times> 's) option" where
  "consume handler chunks s =
     (case chunks of
        LNil \<Rightarrow> Some (LNil, s)
      | LCons chunk rest \<Rightarrow>
          (case handler chunk s of
             (returned, s') \<Rightarrow>
               if returned = True then Some (rest, s') else consume handler rest s'))"

definition logs ::
  "'w Modem \<Rightarrow> Container \<Rightarrow> (string \<Rightarrow> 's \<Rightarrow> bool \<times> 's) \<Rightarrow> 's \<Rightarrow> 'w
     \<Rightarrow> ((error + string llist) \<times> 's \<times> Container \<times> 'w) option" where
  "logs modem this handler s w =
     (case request modem
             \<lparr>method' = Some ''GET'', path = ''/containers/'' @ id' this @ ''/logs'',
              query = Some [(''stdout'', JBool True), (''follow'', JBool True),
                            (''tail'', JString ''all'')],
              body = None\<rparr> w of
        (Inl e, w') \<Rightarrow> Some (Inl e, s, this, w')
      | (Inr res, w') \<Rightarrow>
          (case consume handler (stream res) s of
             None \<Rightarrow> None
           | Some (rest, s') \<Rightarrow> Some (Inr rest, s', this, w')))"

text \<open>
  \<^verbatim>\<open>exec\<close>. The class \<^verbatim>\<open>Exec\<close> is not among the sources: \<open>exec_start\<close> stands for
  \<^verbatim>\<open>new Exec(Id).start()\<close>. The body spreads \<^verbatim>\<open>opts\<close> and then sets three
  properties.
\<close>

definition exec ::
  "'w Modem \<Rightarrow> (string \<Rightarrow> 'w \<Rightarrow> (error + 'x) \<times> 'w) \<Rightarrow> Container \<Rightarrow> string + string list
     \<Rightarrow> (string \<times> json) list option \<Rightarrow> 'w \<Rightarrow> (error + 'x) \<times> Container \<times> 'w" where
  "exec modem exec_start this cmd opts w =
     (case post modem
             \<lparr>method' = None, path = ''/containers/'' @ id' this @ ''/exec'', query = None,
              body = Some (JObject
                (AList.update ''AttachStderr'' (JBool True)
                  (AList.update ''AttachStdout'' (JBool True)
                    (AList.update ''Cmd''
                       (JArray (map JString (case cmd of Inl c \<Rightarrow> [c] | Inr cs \<Rightarrow> cs)))
                       (or_empty opts)))))\<rparr> w of
        (Inl e, w') \<Rightarrow> (Inl e, this, w')
      | (Inr r, w') \<Rightarrow>
          (case exec_start (Id r) w' of (started, w'') \<Rightarrow> (started, this, w'')))"

text \<open>
  A use of the handle is a sequence of operations. \<open>perform\<close> runs one of them on the
  handle, the handler's state and the engine's state, whatever its result, and
  \<open>perform_all\<close> a sequence of them; the value is \<open>None\<close> when a \<^verbatim>\<open>logs\<close> among them
  does not return.
\<close>

datatype 's operation =
    Start "(string \<times> json) list option"
  | Stop "(string \<times> json) list option"
  | Remove "(string \<times> json) list option"
  | Inspect
  | Logs "string \<Rightarrow> 's \<Rightarrow> bool \<times> 's"
  | Exec "string + string list" "(string \<times> json) list option"

fun perform ::
  "'w Modem \<Rightarrow> (string \<Rightarrow> 'w \<Rightarrow> (error + 'x) \<times> 'w) \<Rightarrow> 's operation
     \<Rightarrow> Container \<times> 's \<times> 'w \<Rightarrow> (Container \<times> 's \<times> 'w) option" where
  "perform modem exec_start (Start q) (this, s, w) =
     (case start modem this q w of (r, this', w') \<Rightarrow> Some (this', s, w'))"
| "perform modem exec_start (Stop q) (this, s, w) =
     (case stop modem this q w of (r, this', w') \<Rightarrow> Some (this', s, w'))"
| "perform modem exec_start (Remove q) (this, s, w) =
     (case remove modem this q w of (r, this', w') \<Rightarrow> Some (this', s, w'))"
| "perform modem exec_start Inspect (this, s, w) =
     (case inspect modem this w of (r, this', w') \<Rightarrow> Some (this', s, w'))"
| "perform modem exec_start (Logs handler) (this, s, w) =
     (case logs modem this handler s w of
        None \<Rightarrow> None
      | Some (r, s', this', w') \<Rightarrow> Some (this', s', w'))"
| "perform modem exec_start (Exec cmd opts) (this, s, w) =
     (case exec modem exec_start this cmd opts w of (r, this', w') \<Rightarrow> Some (this', s, w'))"

fun perform_all ::
  "'w Modem \<Rightarrow> (string \<Rightarrow> 'w \<Rightarrow> (error + 'x) \<times> 'w) \<Rightarrow> 's operation list
     \<Rightarrow> Container \<times> 's \<times> 'w \<Rightarrow> (Container \<times> 's \<times> 'w) option" where
  "perform_all modem exec_start [] state = Some state"
| "perform_all modem exec_start (operation # operations) state =
     (case perform modem exec_start operation state of
        None \<Rightarrow> None
      | Some state' \<Rightarrow> perform_all modem exec_start operations state')"

subsection \<open>Vocabulary of the statements\<close>

text \<open>
  \<open>prepend chunks stream\<close> is the stream that delivers the chunks of the list and then goes
  on as \<open>stream\<close>; \<open>forever x\<close> delivers \<open>x\<close> without end.
\<close>

primrec prepend :: "'a list \<Rightarrow> 'a llist \<Rightarrow> 'a llist" where
  "prepend [] chunks = chunks"
| "prepend (x # xs) chunks = LCons x (prepend xs chunks)"

primcorec forever :: "'a \<Rightarrow> 'a llist" where
  "forever x = LCons x (forever x)"

text \<open>
  \<open>void_run handler chunks s\<close> calls the handler on each of the chunks in order, from the
  state \<open>s\<close>: it is the state reached when every call returns nothing, and \<open>None\<close> when
  some call returns \<^verbatim>\<open>true\<close>.
\<close>

fun void_run :: "(string \<Rightarrow> 's \<Rightarrow> bool \<times> 's) \<Rightarrow> string list \<Rightarrow> 's \<Rightarrow> 's option" where
  "void_run handler [] s = Some s"
| "void_run handler (chunk # rest) s =
     (case handler chunk s of
        (returned, s') \<Rightarrow> if returned then None else void_run handler rest s')"

text \<open>The requests \<^verbatim>\<open>logs\<close> and \<^verbatim>\<open>createContainer\<close> send.\<close>

definition logs_request :: "Container \<Rightarrow> request" where
  "logs_request this =
     \<lparr>method' = Some ''GET'', path = ''/containers/'' @ id' this @ ''/logs'',
      query = Some [(''stdout'', JBool True), (''follow'', JBool True),
                    (''tail'', JString ''all'')],
      body = None\<rparr>"

definition create_request :: "json \<Rightarrow> (string \<times> json) list option \<Rightarrow> request" where
  "create_request config q =
     \<lparr>method' = None, path = ''/containers/create'', query = Some (or_empty q),
      body = Some config\<rparr>"

text \<open>
  An engine for the examples: its state counts the requests, it creates the container
  \<^verbatim>\<open>c0ffee\<close>, and it answers a log request with the given stream. \<open>until_ready\<close> is a
  handler that records what it is given and asks to stop at the readiness marker of
  Postgres; \<open>record_all\<close> never asks to stop.
\<close>

definition example_modem :: "string llist \<Rightarrow> nat Modem" where
  "example_modem chunks =
     \<lparr>post = (\<lambda>req n. (Inr \<lparr>Id = ''c0ffee'', Warnings = [''no healthcheck'']\<rparr>, Suc n)),
      del = (\<lambda>req n. (Inr \<lparr>Id = [], Warnings = []\<rparr>, Suc n)),
      get = (\<lambda>req n. (Inr \<lparr>Id = ''c0ffee'', Warnings = []\<rparr>, Suc n)),
      request = (\<lambda>req n. (Inr \<lparr>stream = chunks\<rparr>, Suc n))\<rparr>"

definition example_exec_start :: "string \<Rightarrow> nat \<Rightarrow> (error + unit) \<times> nat" where
  "example_exec_start exec_id n = (Inr (), Suc n)"

definition example_handle :: Container where
  "example_handle = \<lparr>id' = ''c0ffee'', warnings = [''no healthcheck'']\<rparr>"

definition example_stream :: "string llist" where
  "example_stream =
     prepend [''starting'', ''database system is ready''] (LCons ''later'' (forever ''heartbeat''))"

definition until_ready :: "string \<Rightarrow> string list \<Rightarrow> bool \<times> string list" where
  "until_ready chunk seen = (chunk = ''database system is ready'', seen @ [chunk])"

definition record_all :: "string \<Rightarrow> string list \<Rightarrow> bool \<times> string list" where
  "record_all chunk seen = (False, seen @ [chunk])"

subsection \<open>Claims about the handle\<close>

lemma consume_stops:
  "void_run handler before s = Some s1 \<Longrightarrow> handler chunk s1 = (True, s2) \<Longrightarrow>
   consume handler (prepend before (LCons chunk after)) s = Some (after, s2)"
proof (induction before arbitrary: s)
  case Nil
  thus ?case by (subst consume.simps) simp
next
  case (Cons c cs)
  thus ?case by (subst consume.simps) (auto split: prod.splits if_splits)
qed

lemma consume_all:
  "void_run handler chunks s = Some s1 \<Longrightarrow>
   consume handler (prepend chunks LNil) s = Some (LNil, s1)"
proof (induction chunks arbitrary: s)
  case Nil
  thus ?case by (subst consume.simps) simp
next
  case (Cons c cs)
  thus ?case by (subst consume.simps) (auto split: prod.splits if_splits)
qed

lemma consume_returns_aux:
  assumes "consume handler input s = Some y"
  shows "(\<exists>before chunk s1. input = prepend before (LCons chunk (fst y)) \<and>
            void_run handler before s = Some s1 \<and> handler chunk s1 = (True, snd y)) \<or>
         (\<exists>chunks. input = prepend chunks LNil \<and> fst y = LNil \<and>
            void_run handler chunks s = Some (snd y))"
proof (induct handler input s y rule: consume.raw_induct)
  case (1 consume' handler input s y)
  show ?case
  proof (cases input)
    case LNil
    with 1(2) have "input = prepend [] LNil \<and> fst y = LNil \<and> void_run handler [] s = Some (snd y)"
      by auto
    thus ?thesis by blast
  next
    case (LCons c cs)
    obtain returned t where h: "handler c s = (returned, t)"
      by (cases "handler c s")
    show ?thesis
    proof (cases returned)
      case True
      with 1(2) LCons h have "input = prepend [] (LCons c (fst y)) \<and>
            void_run handler [] s = Some s \<and> handler c s = (True, snd y)"
        by auto
      thus ?thesis by blast
    next
      case False
      with 1(2) LCons h have "consume' handler cs t = Some y"
        by simp
      hence "(\<exists>before chunk s1. cs = prepend before (LCons chunk (fst y)) \<and>
            void_run handler before t = Some s1 \<and> handler chunk s1 = (True, snd y)) \<or>
         (\<exists>chunks. cs = prepend chunks LNil \<and> fst y = LNil \<and>
            void_run handler chunks t = Some (snd y))"
        by (rule 1(1))
      thus ?thesis
      proof
        assume "\<exists>before chunk s1. cs = prepend before (LCons chunk (fst y)) \<and>
            void_run handler before t = Some s1 \<and> handler chunk s1 = (True, snd y)"
        then obtain before chunk s1 where "cs = prepend before (LCons chunk (fst y))"
          "void_run handler before t = Some s1" "handler chunk s1 = (True, snd y)"
          by blast
        with LCons h False have "input = prepend (c # before) (LCons chunk (fst y)) \<and>
            void_run handler (c # before) s = Some s1 \<and> handler chunk s1 = (True, snd y)"
          by simp
        thus ?thesis by blast
      next
        assume "\<exists>chunks. cs = prepend chunks LNil \<and> fst y = LNil \<and>
            void_run handler chunks t = Some (snd y)"
        then obtain chunks where "cs = prepend chunks LNil" "fst y = LNil"
          "void_run handler chunks t = Some (snd y)"
          by blast
        with LCons h False have "input = prepend (c # chunks) LNil \<and> fst y = LNil \<and>
            void_run handler (c # chunks) s = Some (snd y)"
          by simp
        thus ?thesis by blast
      qed
    qed
  qed
qed (rule assms)

lemma consume_returns:
  assumes "consume handler input s = Some (rest, s')"
  shows "(\<exists>before chunk s1. input = prepend before (LCons chunk rest) \<and>
            void_run handler before s = Some s1 \<and> handler chunk s1 = (True, s')) \<or>
         (\<exists>chunks. input = prepend chunks LNil \<and> rest = LNil \<and>
            void_run handler chunks s = Some s')"
  using consume_returns_aux [OF assms] by simp

lemma logs_consume:
  "request modem (logs_request this) w = (Inr res, w') \<Longrightarrow>
   logs modem this handler s w =
     (case consume handler (stream res) s of
        None \<Rightarrow> None
      | Some (rest, s') \<Rightarrow> Some (Inr rest, s', this, w'))"
  by (simp add: logs_def logs_request_def)

text \<open>
  Claim C3. Let the log request be answered with a stream. If the stream delivers the
  chunks of \<open>before\<close>, then \<open>chunk\<close>, and goes on as \<open>after\<close>, and the handler returns
  nothing on each chunk of \<open>before\<close> (called in this order, each call from the state the
  one before left) and \<^verbatim>\<open>true\<close> on \<open>chunk\<close>, then \<^verbatim>\<open>logs\<close> stops there: it returns,
  the handler has been called on \<open>before\<close> and on \<open>chunk\<close> and is left in the state of
  that last call, and exactly \<open>after\<close>, finite or not, is left unconsumed. If the stream
  ends and the handler returned nothing on every chunk, the whole stream has been consumed.
  And \<^verbatim>\<open>logs\<close> returns in these two ways only: consumption never stops at a chunk on
  which the handler did not return \<^verbatim>\<open>true\<close>. (A handler that throws is not modelled.)
\<close>

theorem logs_stops_at_first_sentinel:
  assumes "request modem (logs_request this) w = (Inr res, w')"
  shows
  "(stream res = prepend before (LCons chunk after) \<and> void_run handler before s = Some s1 \<and>
    handler chunk s1 = (True, s2)
    \<longrightarrow> logs modem this handler s w = Some (Inr after, s2, this, w')) \<and>
   (stream res = prepend chunks LNil \<and> void_run handler chunks s = Some s1
    \<longrightarrow> logs modem this handler s w = Some (Inr LNil, s1, this, w')) \<and>
   (logs modem this handler s w = Some (Inr rest, s', this', w'')
    \<longrightarrow> (\<exists>before chunk s1. stream res = prepend before (LCons chunk rest) \<and>
           void_run handler before s = Some s1 \<and> handler chunk s1 = (True, s')) \<or>
        (\<exists>chunks. stream res = prepend chunks LNil \<and> rest = LNil \<and>
           void_run handler chunks s = Some s'))"
proof (intro conjI impI)
  assume "stream res = prepend before (LCons chunk after) \<and> void_run handler before s = Some s1 \<and>
    handler chunk s1 = (True, s2)"
  thus "logs modem this handler s w = Some (Inr after, s2, this, w')"
    by (simp add: logs_consume [OF assms] consume_stops)
next
  assume "stream res = prepend chunks LNil \<and> void_run handler chunks s = Some s1"
  thus "logs modem this handler s w = Some (Inr LNil, s1, this, w')"
    by (simp add: logs_consume [OF assms] consume_all)
next
  assume "logs modem this handler s w = Some (Inr rest, s', this', w'')"
  hence "consume handler (stream res) s = Some (rest, s')"
    by (auto simp: logs_consume [OF assms] split: option.splits)
  thus "(\<exists>before chunk s1. stream res = prepend before (LCons chunk rest) \<and>
           void_run handler before s = Some s1 \<and> handler chunk s1 = (True, s')) \<or>
        (\<exists>chunks. stream res = prepend chunks LNil \<and> rest = LNil \<and>
           void_run handler chunks s = Some s')"
    by (rule consume_returns)
qed

theorem logs_stops_at_first_sentinel_witness:
  "logs (example_modem (prepend [''starting'', ''database system is ready'']
                          (LCons ''later'' (forever ''heartbeat''))))
        example_handle until_ready [] 0
     = Some (Inr (LCons ''later'' (forever ''heartbeat'')),
             [''starting'', ''database system is ready''], example_handle, 1) \<and>
   logs (example_modem (prepend [''starting'', ''stopped''] LNil))
        example_handle until_ready [] 0
     = Some (Inr LNil, [''starting'', ''stopped''], example_handle, 1)"
proof -
  let ?endless = "prepend [''starting'', ''database system is ready'']
                    (LCons ''later'' (forever ''heartbeat''))"
  let ?finite = "prepend [''starting'', ''stopped''] LNil"
  have "request (example_modem ?endless) (logs_request example_handle) 0
          = (Inr \<lparr>stream = ?endless\<rparr>, 1)"
    by (simp add: example_modem_def)
  from logs_stops_at_first_sentinel
         [OF this, where before = "[''starting'']" and chunk = "''database system is ready''"
            and after = "LCons ''later'' (forever ''heartbeat'')" and handler = until_ready
            and s = "[]" and ?s1.0 = "[''starting'']"
            and ?s2.0 = "[''starting'', ''database system is ready'']"]
  have endless: "logs (example_modem ?endless) example_handle until_ready [] 0
     = Some (Inr (LCons ''later'' (forever ''heartbeat'')),
             [''starting'', ''database system is ready''], example_handle, 1)"
    by (simp add: until_ready_def)
  have "request (example_modem ?finite) (logs_request example_handle) 0
          = (Inr \<lparr>stream = ?finite\<rparr>, 1)"
    by (simp add: example_modem_def)
  from logs_stops_at_first_sentinel
         [OF this, where handler = until_ready and s = "[]"
            and chunks = "[''starting'', ''stopped'']" and ?s1.0 = "[''starting'', ''stopped'']"]
  have "logs (example_modem ?finite) example_handle until_ready [] 0
     = Some (Inr LNil, [''starting'', ''stopped''], example_handle, 1)"
    by (simp add: until_ready_def)
  with endless show ?thesis
    by blast
qed

lemma perform_this:
  "perform modem exec_start operation state = Some state' \<Longrightarrow> fst state' = fst state"
proof (cases state)
  case (fields this s w)
  assume "perform modem exec_start operation state = Some state'"
  thus ?thesis
    unfolding fields
    by (cases operation)
       (auto simp: start_def stop_def remove_def inspect_def logs_def exec_def
          split: prod.splits sum.splits option.splits)
qed

lemma perform_all_this:
  "perform_all modem exec_start operations state = Some state' \<Longrightarrow> fst state' = fst state"
proof (induction operations arbitrary: state)
  case Nil
  thus ?case by simp
next
  case (Cons operation operations)
  then obtain mid where mid: "perform modem exec_start operation state = Some mid"
    and rest: "perform_all modem exec_start operations mid = Some state'"
    by (auto split: option.splits)
  from Cons.IH [OF rest] perform_this [OF mid] show ?case
    by simp
qed

lemma example_modem_simps:
  "post (example_modem chunks) req n = (Inr \<lparr>Id = ''c0ffee'', Warnings = [''no healthcheck'']\<rparr>, Suc n)"
  "del (example_modem chunks) req n = (Inr \<lparr>Id = [], Warnings = []\<rparr>, Suc n)"
  "get (example_modem chunks) req n = (Inr \<lparr>Id = ''c0ffee'', Warnings = []\<rparr>, Suc n)"
  "request (example_modem chunks) req n = (Inr \<lparr>stream = chunks\<rparr>, Suc n)"
  by (simp_all add: example_modem_def)

lemma example_logs:
  "logs (example_modem example_stream) this until_ready [] n
     = Some (Inr (LCons ''later'' (forever ''heartbeat'')),
             [''starting'', ''database system is ready''], this, Suc n)"
proof -
  have "consume until_ready example_stream []
          = Some (LCons ''later'' (forever ''heartbeat''), [''starting'', ''database system is ready''])"
  proof -
    have "example_stream = prepend [''starting'']
            (LCons ''database system is ready'' (LCons ''later'' (forever ''heartbeat'')))"
      by (simp add: example_stream_def)
    moreover have "consume until_ready
        (prepend [''starting'']
           (LCons ''database system is ready'' (LCons ''later'' (forever ''heartbeat'')))) []
        = Some (LCons ''later'' (forever ''heartbeat''), [''starting'', ''database system is ready''])"
      by (rule consume_stops [where ?s1.0 = "[''starting'']"]) (simp_all add: until_ready_def)
    ultimately show ?thesis
      by simp
  qed
  moreover have "request (example_modem example_stream) (logs_request this) n
          = (Inr \<lparr>stream = example_stream\<rparr>, Suc n)"
    by (simp add: example_modem_simps)
  ultimately show ?thesis
    by (simp add: logs_consume)
qed

lemma example_run:
  "perform_all (example_modem example_stream) example_exec_start
     [Start None, Logs until_ready, Inspect, Exec (Inl ''ls'') None, Stop None,
      Remove (Some [(''force'', JBool True)])]
     (example_handle, [], 1)
   = Some (example_handle, [''starting'', ''database system is ready''], 8)"
  by (simp add: example_logs example_modem_simps start_def stop_def remove_def inspect_def
        exec_def example_exec_start_def)

text \<open>
  When the stream has no end and the handler never returns \<^verbatim>\<open>true\<close>, the loop does not
  return.
\<close>

lemma forever_endless: "forever x \<noteq> prepend chunks LNil"
proof (induction chunks)
  case Nil
  show ?case by (subst forever.code) simp
next
  case (Cons c cs)
  thus ?case by (subst forever.code) simp
qed

lemma consume_never_returns:
  assumes "\<And>chunk t. fst (handler chunk t) = False"
    and "\<And>chunks. input \<noteq> prepend chunks LNil"
  shows "consume handler input s = None"
proof (cases "consume handler input s")
  case None
  thus ?thesis .
next
  case (Some y)
  from consume_returns_aux [OF this] assms(2) obtain chunk s1 where "handler chunk s1 = (True, snd y)"
    by blast
  with assms(1) [of chunk s1] show ?thesis
    by simp
qed

lemma logs_never_returns:
  "logs (example_modem (forever ''heartbeat'')) this record_all s n = None"
proof -
  have "consume record_all (forever ''heartbeat'') s = None"
    by (rule consume_never_returns) (simp_all add: record_all_def forever_endless)
  thus ?thesis
    by (simp add: logs_def example_modem_simps)
qed

text \<open>
  Claim C9. When the engine answers the create request with a response \<open>r\<close>,
  \<^verbatim>\<open>createContainer\<close> returns a handle whose identifier and warnings are the
  \<^verbatim>\<open>Id\<close> and the \<^verbatim>\<open>Warnings\<close> of \<open>r\<close>, and after any sequence of operations on the
  handle (start, stop, remove, inspect, logs, exec, in any order and number, with any
  arguments, failing or not) both fields still have these values.
\<close>

theorem container_fields_never_change:
  assumes "post modem (create_request config q) w = (Inr r, w1)"
  shows "\<exists>this. createContainer modem config q w = (Inr this, w1) \<and>
           id' this = Id r \<and> warnings this = Warnings r \<and>
           (\<forall>state. perform_all modem exec_start operations (this, s, w1) = Some state \<longrightarrow>
              id' (fst state) = Id r \<and> warnings (fst state) = Warnings r)"
proof -
  let ?handle = "\<lparr>id' = Id r, warnings = Warnings r\<rparr>"
  have "createContainer modem config q w = (Inr ?handle, w1)"
    using assms by (simp add: createContainer_def create_request_def)
  moreover have "id' (fst state) = Id r \<and> warnings (fst state) = Warnings r"
    if "perform_all modem exec_start operations (?handle, s, w1) = Some state" for state
    using perform_all_this [OF that] by simp
  ultimately show ?thesis
    by auto
qed

theorem container_fields_never_change_witness:
  "\<exists>this. createContainer (example_modem example_stream)
              (JObject [(''Image'', JString ''postgres:16'')]) None 0 = (Inr this, 1) \<and>
      id' this = ''c0ffee'' \<and> warnings this = [''no healthcheck''] \<and>
      (\<exists>state. perform_all (example_modem example_stream) example_exec_start
                 [Start None, Logs until_ready, Inspect, Exec (Inl ''ls'') None, Stop None,
                  Remove (Some [(''force'', JBool True)])]
                 (this, [], 1) = Some state \<and>
               id' (fst state) = ''c0ffee'' \<and> warnings (fst state) = [''no healthcheck''])"
proof -
  have "post (example_modem example_stream)
          (create_request (JObject [(''Image'', JString ''postgres:16'')]) None) 0
          = (Inr \<lparr>Id = ''c0ffee'', Warnings = [''no healthcheck'']\<rparr>, 1)"
    by (simp add: example_modem_simps)
  from container_fields_never_change
         [OF this, where exec_start = example_exec_start and s = "[]"
            and operations = "[Start None, Logs until_ready, Inspect, Exec (Inl ''ls'') None,
              Stop None, Remove (Some [(''force'', JBool True)])]"]
  obtain this where created:
    "createContainer (example_modem example_stream)
       (JObject [(''Image'', JString ''postgres:16'')]) None 0 = (Inr this, 1)"
    "id' this = ''c0ffee''" "warnings this = [''no healthcheck'']"
    and frame: "\<And>state. perform_all (example_modem example_stream) example_exec_start
                 [Start None, Logs until_ready, Inspect, Exec (Inl ''ls'') None, Stop None,
                  Remove (Some [(''force'', JBool True)])]
                 (this, [], 1) = Some state \<Longrightarrow>
               id' (fst state) = ''c0ffee'' \<and> warnings (fst state) = [''no healthcheck'']"
    by auto
  from created have "this = example_handle"
    by (simp add: example_handle_def)
  with example_run frame [of "(example_handle, [''starting'', ''database system is ready''], 8)"]
    created
  show ?thesis
    by auto
qed

section \<open>The Postgres wrapper (\<^verbatim>\<open>containers/postgres.ts\<close>)\<close>

subsection \<open>Types\<close>

text \<open>
  A connection-options object is the list of its properties, in the order in which
  \<^verbatim>\<open>for (const key in options)\<close> enumerates them; a property declared optional may hold
  \<^verbatim>\<open>undefined\<close> (\<open>None\<close>).
\<close>

record Config =
  username :: string
  password :: string

type_synonym PostgresConnectionOptions = "(string \<times> string option) list"

record PostgresConnectionInfo =
  user :: string
  pass :: string
  host :: string
  port :: int

record ConnectionUrlConfig = PostgresConnectionInfo +
  name :: string
  options :: "PostgresConnectionOptions option"

record PostgresTestContainer =
  container :: Container
  port :: int
  config :: Config

subsection \<open>Template literals\<close>

text \<open>
  \<^verbatim>\<open>${port}\<close> renders a number. For an integer of magnitude below \<open>2\<^sup>5\<^sup>3\<close> that is its
  decimal notation, with a minus sign when it is negative, and \<open>number_to_string\<close> is
  that notation. JavaScript renders larger numbers otherwise (rounded to 17 significant
  digits, in exponent notation from \<open>10\<^sup>2\<^sup>1\<close> on); every statement below that depends on
  the digits of a port bounds the port by 65535. \<open>template\<close> renders a property that
  is a string or \<^verbatim>\<open>undefined\<close>.
\<close>

definition digit_char :: "nat \<Rightarrow> char" where
  "digit_char d = ''0123456789'' ! d"

function digits :: "nat \<Rightarrow> string" where
  "digits n = (if n < 10 then [digit_char n] else digits (n div 10) @ [digit_char (n mod 10)])"
  by pat_completeness auto
termination
  by (relation "measure id") auto

declare digits.simps [simp del]

definition number_to_string :: "int \<Rightarrow> string" where
  "number_to_string i = (if i < 0 then CHR ''-'' # digits (nat (- i)) else digits (nat i))"

definition template :: "string option \<Rightarrow> string" where
  "template v = (case v of None \<Rightarrow> ''undefined'' | Some s \<Rightarrow> s)"

text \<open>\<^verbatim>\<open>values.join("&")\<close>.\<close>

fun join :: "string \<Rightarrow> string list \<Rightarrow> string" where
  "join sep [] = []"
| "join sep [x] = x"
| "join sep (x # y # ys) = x @ sep @ join sep (y # ys)"

subsection \<open>Building the connection URL\<close>

text \<open>\<^verbatim>\<open>["schema"].includes(key) === false\<close> throws.\<close>

definition assertPostgresOptionKey :: "string \<Rightarrow> error + unit" where
  "assertPostgresOptionKey key =
     (if (key \<in> set [''schema'']) = False then
        Inl (Error (''Invalid postgres option key: '' @ key))
      else Inr ())"

text \<open>
  The \<^verbatim>\<open>for ... in\<close> loop of \<open>postgresOptionsToString\<close>, with the array
  \<^verbatim>\<open>values\<close> it pushes to.
\<close>

fun option_values :: "PostgresConnectionOptions \<Rightarrow> string list \<Rightarrow> error + string list" where
  "option_values [] values = Inr values"
| "option_values ((key, v) # rest) values =
     (case assertPostgresOptionKey key of
        Inl e \<Rightarrow> Inl e
      | Inr _ \<Rightarrow> option_values rest (values @ [key @ ''='' @ template v]))"

definition postgresOptionsToString :: "PostgresConnectionOptions option \<Rightarrow> error + string" where
  "postgresOptionsToString opts =
     (case opts of
        None \<Rightarrow> Inr ''''
      | Some object \<Rightarrow>
          (case option_values object [] of
             Inl e \<Rightarrow> Inl e
           | Inr values \<Rightarrow> Inr (''?'' @ join ''&'' values)))"

definition getConnectionUrl :: "ConnectionUrlConfig \<Rightarrow> error + string" where
  "getConnectionUrl c =
     (case postgresOptionsToString (options c) of
        Inl e \<Rightarrow> Inl e
      | Inr suffix \<Rightarrow>
          Inr (''postgres://'' @ user c @ '':'' @ pass c @ ''@'' @ host c @ '':'' @
               number_to_string (PostgresConnectionInfo.port c) @ ''/'' @ name c @ suffix))"

definition connectionInfo :: "PostgresTestContainer \<Rightarrow> PostgresConnectionInfo" where
  "connectionInfo this =
     \<lparr>user = username (config this), pass = password (config this),
      host = ''127.0.0.1'', port = PostgresTestContainer.port this\<rparr>"

text \<open>
  \<^verbatim>\<open>url\<close> and \<^verbatim>\<open>client\<close>. The function \<^verbatim>\<open>psql\<close> of the \<^verbatim>\<open>postgres\<close>
  package is a parameter; \<^verbatim>\<open>client\<close> applies it to the URL once \<^verbatim>\<open>url\<close> has returned.
\<close>

definition url :: "PostgresTestContainer \<Rightarrow> string \<Rightarrow> PostgresConnectionOptions option \<Rightarrow> error + string" where
  "url this nm opts =
     getConnectionUrl
       \<lparr>user = user (connectionInfo this), pass = pass (connectionInfo this),
        host = host (connectionInfo this), port = PostgresConnectionInfo.port (connectionInfo this),
        name = nm, options = opts\<rparr>"

definition client ::
  "(string \<Rightarrow> 'sql) \<Rightarrow> PostgresTestContainer \<Rightarrow> string \<Rightarrow> PostgresConnectionOptions option \<Rightarrow> error + 'sql" where
  "client psql this nm opts =
     (case url this nm opts of Inl e \<Rightarrow> Inl e | Inr u \<Rightarrow> Inr (psql u))"

subsection \<open>Reading a connection URL\<close>

text \<open>
  The repository builds connection URLs and hands them to the \<^verbatim>\<open>postgres\<close> package; it
  has no code that reads one. \<open>parse_connection_url\<close> is therefore not a translation of
  the source: it reads a URL as the generic URI syntax divides it (RFC 3986, section 3 and
  appendix B). After the scheme \<^verbatim>\<open>postgres://\<close> the authority runs to the first
  \<^verbatim>\<open>/\<close>, \<^verbatim>\<open>?\<close> or \<^verbatim>\<open>#\<close>, the path from there to the first \<^verbatim>\<open>?\<close> or \<^verbatim>\<open>#\<close>, the
  query from there to the first \<^verbatim>\<open>#\<close>. In the authority the user information ends at
  the \<^verbatim>\<open>@\<close>, of which there is exactly one (the syntax has no \<^verbatim>\<open>@\<close> inside the user
  information or the host), and the user at the first colon of the user information; the
  host ends at the first colon after the user information, and the port is a decimal number
  of at most 65535. The database name is the path without its leading slash. The query is
  cut at every \<^verbatim>\<open>&\<close> into pairs \<^verbatim>\<open>key=value\<close>. Nothing is percent-decoded, as
  \<open>getConnectionUrl\<close> encodes nothing.
\<close>








subsection \<open>Vocabulary of the statements\<close>



text \<open>
  \<open>free_of delimiters s\<close>: none of the \<open>delimiters\<close> occurs in \<open>s\<close>. An options
  object is supported when each of its keys (distinct, as the keys of an object are) is
  \<^verbatim>\<open>schema\<close> and the value is a string without \<^verbatim>\<open>&\<close> and \<^verbatim>\<open>#\<close>: it is absent,
  \<^verbatim>\<open>{}\<close> or \<^verbatim>\<open>{schema: v}\<close>. A configuration is delimiter-free when no component
  contains a character that ends it in the URL: the user none of \<^verbatim>\<open>@ : / ? #\<close>, the
  password none of \<^verbatim>\<open>@ / ? #\<close>, the host none of \<^verbatim>\<open>@ : / ? #\<close>, the database name
  none of \<^verbatim>\<open>? #\<close>; the port is between 0 and 65535, and the options are supported.
\<close>

definition free_of :: "string \<Rightarrow> string \<Rightarrow> bool" where
  "free_of delimiters s \<longleftrightarrow> (\<forall>x\<in>set s. x \<notin> set delimiters)"



definition example_container :: PostgresTestContainer where
  "example_container =
     \<lparr>container = \<lparr>id' = ''abc'', warnings = []\<rparr>, port = 5432,
      config = \<lparr>username = ''postgres'', password = ''postgres''\<rparr>\<rparr>"

definition example_psql :: "string \<Rightarrow> string" where
  "example_psql u = ''client for '' @ u"


subsection \<open>Claim about the option keys\<close>

lemma option_values_invalid:
  "find (\<lambda>key. key \<noteq> ''schema'') (map fst object) = Some key \<Longrightarrow>
   option_values object acc = Inl (Error (''Invalid postgres option key: '' @ key))"
  by (induction object arbitrary: acc)
     (auto simp: assertPostgresOptionKey_def split: if_splits)

lemma option_values_valid:
  "\<forall>key\<in>set (map fst object). key = ''schema'' \<Longrightarrow>
   option_values object acc =
     Inr (acc @ map (\<lambda>(key, v). key @ ''='' @ template v) object)"
  by (induction object arbitrary: acc)
     (auto simp: assertPostgresOptionKey_def)

text \<open>
  Claim C8. If an options object has a key other than \<^verbatim>\<open>schema\<close>, then \<^verbatim>\<open>url\<close>
  throws an \<^verbatim>\<open>Error\<close> whose message names the first such key, and so does \<^verbatim>\<open>client\<close>,
  for every \<^verbatim>\<open>psql\<close>: the client function is never applied, and \<^verbatim>\<open>url\<close> itself has no
  transport to call. If every key is \<^verbatim>\<open>schema\<close>, \<^verbatim>\<open>url\<close> returns a URL and
  \<^verbatim>\<open>client\<close> the client made from it.
\<close>

theorem invalid_option_key_rejected:
  "((\<exists>key\<in>set (map fst object). key \<noteq> ''schema'') \<longrightarrow>
      (\<exists>key. find (\<lambda>key. key \<noteq> ''schema'') (map fst object) = Some key \<and>
         url this nm (Some object) = Inl (Error (''Invalid postgres option key: '' @ key)) \<and>
         client psql this nm (Some object) =
           Inl (Error (''Invalid postgres option key: '' @ key)))) \<and>
   ((\<forall>key\<in>set (map fst object). key = ''schema'') \<longrightarrow>
      (\<exists>u. url this nm (Some object) = Inr u \<and>
         client psql this nm (Some object) = Inr (psql u)))"
proof (intro conjI impI)
  assume "\<exists>key\<in>set (map fst object). key \<noteq> ''schema''"
  then obtain key where key: "find (\<lambda>key. key \<noteq> ''schema'') (map fst object) = Some key"
    by (cases "find (\<lambda>key. key \<noteq> ''schema'') (map fst object)") (auto simp: find_None_iff)
  from option_values_invalid [OF this, of "[]"]
  have "url this nm (Some object) = Inl (Error (''Invalid postgres option key: '' @ key))"
    by (simp add: url_def getConnectionUrl_def postgresOptionsToString_def)
  with key show "\<exists>key. find (\<lambda>key. key \<noteq> ''schema'') (map fst object) = Some key \<and>
         url this nm (Some object) = Inl (Error (''Invalid postgres option key: '' @ key)) \<and>
         client psql this nm (Some object) =
           Inl (Error (''Invalid postgres option key: '' @ key))"
    by (simp add: client_def)
next
  assume "\<forall>key\<in>set (map fst object). key = ''schema''"
  from option_values_valid [OF this, of "[]"]
  show "\<exists>u. url this nm (Some object) = Inr u \<and> client psql this nm (Some object) = Inr (psql u)"
    by (simp add: client_def url_def getConnectionUrl_def postgresOptionsToString_def)
qed

theorem invalid_option_key_rejected_witness:
  "url example_container ''db'' (Some [(''schema'', Some ''public''), (''sslmode'', Some ''require'')])
     = Inl (Error ''Invalid postgres option key: sslmode'') \<and>
   client example_psql example_container ''db'' (Some [(''schema'', Some ''public''), (''sslmode'', Some ''require'')])
     = Inl (Error ''Invalid postgres option key: sslmode'') \<and>
   (\<exists>u. url example_container ''db'' (Some [(''schema'', Some ''public'')]) = Inr u \<and>
        client example_psql example_container ''db'' (Some [(''schema'', Some ''public'')]) = Inr (example_psql u))"
  using invalid_option_key_rejected
          [of "[(''schema'', Some ''public''), (''sslmode'', Some ''require'')]" example_container "''db''" example_psql]
        invalid_option_key_rejected
          [of "[(''schema'', Some ''public'')]" example_container "''db''" example_psql]
  by simp

subsection \<open>Claim about the round trip\<close>














lemma free_of_Nil: "free_of ds []"
  by (simp add: free_of_def)

















end
